theory Spec2Isabelle
  imports Main "HOL-Library.Word"
begin

section \<open>The sketch's global state and its environment\<close>

text \<open>
  The model follows \<^verbatim>\<open>1-Slideshow.cpp\<close>. The globals of the sketch are the fields of
  one record that every operation takes and returns; an operation that waits for the SPI
  mutex returns an option, \<open>None\<close> when the wait never ends. Library calls whose outcome the
  sketch only tests (the directory enumeration of SdFat, \<^verbatim>\<open>jpeg.open\<close>, \<^verbatim>\<open>SD.begin\<close>,
  \<^verbatim>\<open>wav->begin\<close>, \<^verbatim>\<open>wav->loop\<close>, \<^verbatim>\<open>sd.exists\<close>, \<^verbatim>\<open>sd.remove\<close>) are inputs of the model.
  What the sketch does to the outside world (taking and giving the SPI mutex, painting a
  decoded frame, broadcasting on the web socket) is appended to a trace, oldest first.
\<close>

datatype event =
    SemTake             \<comment> \<open>\<^verbatim>\<open>xSemaphoreTake(xSpiMutex, portMAX_DELAY)\<close>\<close>
  | SemGive             \<comment> \<open>\<^verbatim>\<open>xSemaphoreGive(xSpiMutex)\<close>\<close>
  | Paint string        \<comment> \<open>\<^verbatim>\<open>tft.fillScreen\<close> and \<^verbatim>\<open>jpeg.decode\<close> of the named file\<close>
  | WsTextAll string    \<comment> \<open>\<^verbatim>\<open>ws.textAll(...)\<close>\<close>
  | AudioChunk          \<comment> \<open>a call of \<^verbatim>\<open>wav->loop()\<close> that played on\<close>

record state =
  currentIndex :: "16 word"       \<comment> \<open>\<^verbatim>\<open>int16_t currentIndex\<close>, read with \<open>sint\<close>\<close>
  fileCount :: "16 word"          \<comment> \<open>\<^verbatim>\<open>uint16_t fileCount\<close>\<close>
  timer :: "32 word"              \<comment> \<open>\<^verbatim>\<open>uint32_t timer\<close>\<close>
  X :: "32 word"                  \<comment> \<open>\<^verbatim>\<open>int X\<close>, read with \<open>sint\<close>\<close>
  buttonPressed :: bool
  sdMounted :: bool               \<comment> \<open>SdFat volume mounted (catalog mode)\<close>
  slideshowActive :: bool
  currentImageName :: string
  xSpiMutex :: bool               \<comment> \<open>\<open>True\<close> while the mutex is taken\<close>
  audioSD :: bool                 \<comment> \<open>the standard SD library is mounted (audio mode)\<close>
  trace :: "event list"

record entry =
  getName :: string               \<comment> \<open>what \<^verbatim>\<open>getName(name, sizeof(name))\<close> leaves in \<^verbatim>\<open>name\<close>\<close>
  isDirectory :: bool

record env =
  dir :: "entry list"             \<comment> \<open>what \<^verbatim>\<open>openNext(&root)\<close> yields after \<^verbatim>\<open>root.rewind()\<close>, in order\<close>
  stackBytes :: string            \<comment> \<open>the bytes in memory just before the buffer \<^verbatim>\<open>name\<close>\<close>
  jpegOpen :: "string \<Rightarrow> bool"     \<comment> \<open>whether \<^verbatim>\<open>jpeg.open(name, ...)\<close> succeeds\<close>

definition emit :: "event \<Rightarrow> state \<Rightarrow> state" where
  "emit ev s = s\<lparr>trace := trace s @ [ev]\<rparr>"

text \<open>
  \<^verbatim>\<open>xSemaphoreTake\<close> with \<^verbatim>\<open>portMAX_DELAY\<close> on the plain mutex of line 1374 waits until
  the mutex is free. The model runs one operation at a time, so nobody gives a mutex that
  is taken when the operation asks for it: the call never returns, which is \<open>None\<close>. An
  operation that takes the mutex therefore returns a \<open>state option\<close>.
\<close>

definition xSemaphoreTake :: "state \<Rightarrow> state option" where
  "xSemaphoreTake s =
     (if xSpiMutex s then None else Some (emit SemTake (s\<lparr>xSpiMutex := True\<rparr>)))"

definition xSemaphoreGive :: "state \<Rightarrow> state" where
  "xSemaphoreGive s = emit SemGive (s\<lparr>xSpiMutex := False\<rparr>)"

definition takes :: "state \<Rightarrow> nat" where
  "takes s = length (filter (\<lambda>ev. ev = SemTake) (trace s))"

definition gives :: "state \<Rightarrow> nat" where
  "gives s = length (filter (\<lambda>ev. ev = SemGive) (trace s))"

definition updates :: "state \<Rightarrow> nat" where
  "updates s = length (filter (\<lambda>ev. ev = WsTextAll ''update'') (trace s))"

section \<open>The file-name test\<close>

text \<open>
  \<^verbatim>\<open>strcasecmp(name + strlen(name) - 3, "JPG") == 0\<close>: the last three characters of the
  name, compared without case. For a name shorter than three characters the pointer lies
  before the buffer, and the comparison reads the bytes stored there (\<open>pre\<close>).
\<close>

definition tolower_c :: "char \<Rightarrow> char" where
  "tolower_c c = (let n = (of_char c :: nat) in
     if 65 \<le> n \<and> n \<le> 90 then char_of (n + 32) else c)"

definition strcasecmp_eq :: "string \<Rightarrow> string \<Rightarrow> bool" where
  "strcasecmp_eq a b = (map tolower_c a = map tolower_c b)"

definition lastThree :: "string \<Rightarrow> string \<Rightarrow> string" where
  "lastThree pre nm = (let m = pre @ nm in drop (length m - 3) m)"

definition isJpg :: "string \<Rightarrow> string \<Rightarrow> bool" where
  "isJpg pre nm = strcasecmp_eq (lastThree pre nm) ''JPG''"

section \<open>Rendering one frame\<close>

text \<open>\<^verbatim>\<open>decodeJpeg\<close>, lines 196 to 208.\<close>

definition decodeJpeg :: "env \<Rightarrow> string \<Rightarrow> state \<Rightarrow> state option" where
  "decodeJpeg e nm s =
     (if \<not> slideshowActive s then Some s
      else case xSemaphoreTake s of
        None \<Rightarrow> None
      | Some s1 \<Rightarrow>
          if \<not> jpegOpen e nm then Some (xSemaphoreGive s1)
          else Some (xSemaphoreGive (emit (Paint nm) s1)))"

text \<open>
  The \<^verbatim>\<open>while (entry.openNext(&root))\<close> loop of \<^verbatim>\<open>loadImage\<close>, lines 175 to 193; \<open>index\<close>
  is the \<^verbatim>\<open>uint16_t\<close> counter of the matching files seen so far.
\<close>

fun scanDir :: "env \<Rightarrow> entry list \<Rightarrow> 16 word \<Rightarrow> 16 word \<Rightarrow> state \<Rightarrow> state option" where
  "scanDir e [] index targetIndex s = Some s"
| "scanDir e (x # xs) index targetIndex s =
     (if \<not> isDirectory x then
        if isJpg (stackBytes e) (getName x) then
          if index = targetIndex then
            map_option (emit (WsTextAll ''update''))
              (decodeJpeg e (getName x) (s\<lparr>currentImageName := getName x\<rparr>))
          else scanDir e xs (index + 1) targetIndex s
        else scanDir e xs index targetIndex s
      else scanDir e xs index targetIndex s)"

text \<open>\<^verbatim>\<open>loadImage\<close>, lines 167 to 194.\<close>

definition loadImage :: "env \<Rightarrow> 16 word \<Rightarrow> state \<Rightarrow> state option" where
  "loadImage e targetIndex s =
     (if \<not> slideshowActive s then Some s
      else scanDir e (dir e) 0 (if targetIndex \<ge> fileCount s then 0 else targetIndex) s)"

text \<open>\<^verbatim>\<open>stopSlideshow\<close> and \<^verbatim>\<open>restartSlideshow\<close>, lines 150 to 164.\<close>

definition stopSlideshow :: "state \<Rightarrow> state option" where
  "stopSlideshow s = map_option xSemaphoreGive (xSemaphoreTake (s\<lparr>slideshowActive := False\<rparr>))"

definition restartSlideshow :: "env \<Rightarrow> state \<Rightarrow> state option" where
  "restartSlideshow e s = loadImage e (currentIndex s) (s\<lparr>slideshowActive := True\<rparr>)"

section \<open>Counting the catalog\<close>

text \<open>
  The counting loop of \<^verbatim>\<open>setup\<close> (lines 1436 to 1445) and of \<^verbatim>\<open>handleFileUpload\<close>
  (lines 452 to 462): every entry whose name passes the test adds one to the
  \<^verbatim>\<open>uint16_t fileCount\<close>.
\<close>

fun countLoop :: "string \<Rightarrow> entry list \<Rightarrow> 16 word \<Rightarrow> 16 word" where
  "countLoop pre [] fc = fc"
| "countLoop pre (x # xs) fc =
     countLoop pre xs (if isJpg pre (getName x) then fc + 1 else fc)"

definition rebuildFileList :: "env \<Rightarrow> state \<Rightarrow> state" where
  "rebuildFileList e s = s\<lparr>fileCount := countLoop (stackBytes e) (dir e) 0\<rparr>"

text \<open>The entries \<^verbatim>\<open>loadImage\<close> can show: files, not directories, whose name passes the test.\<close>

definition eligibleIn :: "string \<Rightarrow> entry list \<Rightarrow> entry list" where
  "eligibleIn pre xs = filter (\<lambda>x. \<not> isDirectory x \<and> isJpg pre (getName x)) xs"

definition eligible :: "env \<Rightarrow> entry list" where
  "eligible e = eligibleIn (stackBytes e) (dir e)"

text \<open>What \<^verbatim>\<open>loadImage\<close> does with the file it was looking for (lines 180 to 187).\<close>

definition shown :: "env \<Rightarrow> string \<Rightarrow> state \<Rightarrow> state option" where
  "shown e nm s =
     map_option (emit (WsTextAll ''update'')) (decodeJpeg e nm (s\<lparr>currentImageName := nm\<rparr>))"

section \<open>The main loop\<close>

text \<open>The \<^verbatim>\<open>%\<close> of C on \<^verbatim>\<open>int\<close>: the quotient is truncated towards zero.\<close>

definition c_mod :: "int \<Rightarrow> int \<Rightarrow> int" where
  "c_mod a b = sgn a * (\<bar>a\<bar> mod \<bar>b\<bar>)"

text \<open>The interrupt handler \<^verbatim>\<open>buttonInt\<close>, lines 121 to 123.\<close>

definition buttonInt :: "state \<Rightarrow> state" where
  "buttonInt s = s\<lparr>buttonPressed := True\<rparr>"

text \<open>
  \<^verbatim>\<open>loop\<close>, lines 1454 to 1467. \<open>t1\<close> and \<open>t2\<close> are the two readings of \<^verbatim>\<open>millis()\<close>.
  The comparison is between \<^verbatim>\<open>unsigned long\<close> values: \<^verbatim>\<open>X * 1000\<close> is computed in
  \<^verbatim>\<open>int\<close> (32 bits on the ESP32) and converted. The sum \<^verbatim>\<open>currentIndex + 1\<close> and the
  remainder are computed in \<^verbatim>\<open>int\<close> and stored back into the \<^verbatim>\<open>int16_t\<close>.
  \<^verbatim>\<open>ws.cleanupClients()\<close> and \<^verbatim>\<open>delay(1)\<close> touch none of the modelled state.
\<close>

definition loop :: "env \<Rightarrow> 32 word \<Rightarrow> 32 word \<Rightarrow> state \<Rightarrow> state option" where
  "loop e t1 t2 s =
     (if fileCount s > 0 then
        if t1 - timer s > X s * 1000 \<or> buttonPressed s then
          let s1 = s\<lparr>currentIndex :=
                     word_of_int (c_mod (sint (currentIndex s) + 1) (uint (fileCount s)))\<rparr>
          in map_option (\<lambda>s2. s2\<lparr>timer := t2, buttonPressed := False\<rparr>)
               (loadImage e (currentIndex s1) s1)
        else Some s
      else Some s)"

text \<open>The test of line 1456, for a pass of \<^verbatim>\<open>loop\<close> that reads the clock as \<open>t1\<close>.\<close>

definition due :: "32 word \<Rightarrow> state \<Rightarrow> bool" where
  "due t1 s = (t1 - timer s > X s * 1000 \<or> buttonPressed s)"

section \<open>HTTP requests\<close>

text \<open>
  A request parameter as the handlers read it (\<^verbatim>\<open>name()\<close>, \<^verbatim>\<open>value()\<close>, \<^verbatim>\<open>isPost()\<close>,
  \<^verbatim>\<open>isFile()\<close>). \<^verbatim>\<open>hasParam(name, post)\<close> and \<^verbatim>\<open>getParam(name, post)\<close> of the web
  server library find the first parameter with that name and kind that is not a file.
\<close>

record param =
  pname :: string
  pvalue :: string
  isPost :: bool
  isFile :: bool

definition getParam :: "string \<Rightarrow> bool \<Rightarrow> param list \<Rightarrow> param option" where
  "getParam nm post ps = find (\<lambda>p. pname p = nm \<and> isPost p = post \<and> isFile p = False) ps"

definition hasParam :: "string \<Rightarrow> bool \<Rightarrow> param list \<Rightarrow> bool" where
  "hasParam nm post ps = (getParam nm post ps \<noteq> None)"

record response =
  code :: nat
  message :: string     \<comment> \<open>the paragraph the page shows\<close>

subsection \<open>\<^verbatim>\<open>String::toInt\<close>\<close>

text \<open>
  \<^verbatim>\<open>toInt\<close> of the Arduino core is \<^verbatim>\<open>atol\<close>: leading white space, an optional sign, then
  decimal digits up to the first other character; no digits give 0, and a value out of
  the range of \<^verbatim>\<open>long\<close> (32 bits) is clamped.
\<close>

definition isspace_c :: "char \<Rightarrow> bool" where
  "isspace_c c = (let n = (of_char c :: nat) in n = 32 \<or> (9 \<le> n \<and> n \<le> 13))"

definition isdigit_c :: "char \<Rightarrow> bool" where
  "isdigit_c c = (let n = (of_char c :: nat) in 48 \<le> n \<and> n \<le> 57)"

fun digits :: "string \<Rightarrow> int \<Rightarrow> int" where
  "digits [] acc = acc"
| "digits (c # cs) acc =
     (if isdigit_c c then digits cs (acc * 10 + (int (of_char c) - 48)) else acc)"

definition clampLong :: "int \<Rightarrow> int" where
  "clampLong v = max (- 2147483648) (min 2147483647 v)"

definition toInt :: "string \<Rightarrow> int" where
  "toInt str =
     (case dropWhile isspace_c str of
        [] \<Rightarrow> 0
      | c # cs \<Rightarrow>
          if c = CHR ''-'' then clampLong (- digits cs 0)
          else if c = CHR ''+'' then clampLong (digits cs 0)
          else clampLong (digits (c # cs) 0))"

subsection \<open>\<^verbatim>\<open>/set-speed\<close>, lines 629 to 691\<close>

definition setSpeed :: "param list \<Rightarrow> state \<Rightarrow> state \<times> response" where
  "setSpeed ps s =
     (let s' = (if hasParam ''speed'' True ps
                then (case getParam ''speed'' True ps of
                        Some p \<Rightarrow> s\<lparr>X := word_of_int (toInt (pvalue p))\<rparr>
                      | None \<Rightarrow> s)
                else s)
      in (s', \<lparr>code = 200, message = ''Slideshow speed updated successfully!''\<rparr>))"

subsection \<open>\<^verbatim>\<open>/delete_files\<close>, lines 879 to 965\<close>

text \<open>
  The card as the handler sees it: the paths that exist (\<^verbatim>\<open>sd.exists\<close>), and for each
  path whether \<^verbatim>\<open>sd.remove\<close> succeeds on it. A successful remove takes the path away.
  \<open>serial\<close> keeps the line printed for each processed parameter.
\<close>

datatype outcome = Deleted | FailedToDelete | NotFound

record deletion =
  files :: "string set"
  deletionSuccess :: bool
  serial :: "(string \<times> outcome) list"

fun deleteLoop :: "(string \<Rightarrow> bool) \<Rightarrow> param list \<Rightarrow> deletion \<Rightarrow> deletion" where
  "deleteLoop rm [] d = d"
| "deleteLoop rm (p # ps) d =
     (if isPost p then
        let fileToDelete = ''/'' @ pvalue p in
        if fileToDelete \<in> files d then
          if rm fileToDelete then
            deleteLoop rm ps
              (d\<lparr>files := files d - {fileToDelete},
                 serial := serial d @ [(fileToDelete, Deleted)]\<rparr>)
          else
            deleteLoop rm ps
              (d\<lparr>deletionSuccess := False,
                 serial := serial d @ [(fileToDelete, FailedToDelete)]\<rparr>)
        else
          deleteLoop rm ps
            (d\<lparr>deletionSuccess := False,
               serial := serial d @ [(fileToDelete, NotFound)]\<rparr>)
      else deleteLoop rm ps d)"

definition deleteFiles :: "(string \<Rightarrow> bool) \<Rightarrow> param list \<Rightarrow> string set \<Rightarrow> deletion \<times> response" where
  "deleteFiles rm ps fs =
     (let d = deleteLoop rm ps \<lparr>files = fs, deletionSuccess = True, serial = []\<rparr>
      in (d, \<lparr>code = 200,
               message = (if deletionSuccess d then ''Selected images deleted successfully!''
                          else ''Failed to delete some images!'')\<rparr>))"

text \<open>The paths a \<^verbatim>\<open>/delete_files\<close> request names, in the order of its posted parameters.\<close>

definition posted :: "param list \<Rightarrow> string list" where
  "posted ps = map (\<lambda>p. ''/'' @ pvalue p) (filter isPost ps)"

text \<open>
  The line expected for the name at position \<open>k\<close> of the names \<open>ns\<close>, when the card held
  the paths \<open>F\<close> before the batch: the name is looked up on the card as the names before
  it left it, that is without the earlier names whose remove succeeds.
\<close>

definition printed :: "(string \<Rightarrow> bool) \<Rightarrow> string set \<Rightarrow> string list \<Rightarrow> nat \<Rightarrow> string \<times> outcome" where
  "printed rm F ns k =
     (ns ! k,
      if ns ! k \<in> F - {n \<in> set (take k ns). rm n}
      then (if rm (ns ! k) then Deleted else FailedToDelete)
      else NotFound)"

section \<open>Playing the WAV file\<close>

text \<open>
  What the audio libraries answer during one playback: \<^verbatim>\<open>SD.begin\<close>, \<^verbatim>\<open>wav->begin\<close>, the
  successive results of \<^verbatim>\<open>wav->loop()\<close> (\<open>False\<close> is a failed or finished decode; the
  file is finite, so once the list is used up \<^verbatim>\<open>loop\<close> answers \<open>False\<close>), and
  \<^verbatim>\<open>sd.begin(sdSpiConfig)\<close> when SdFat is mounted again.
\<close>

record audio =
  sdLibBegin :: bool
  wavBegin :: bool
  wavLoops :: "bool list"
  sdFatBegin :: bool

text \<open>\<^verbatim>\<open>checkAndMountSDCard\<close>, lines 222 to 235.\<close>

definition checkAndMountSDCard :: "bool \<Rightarrow> state \<Rightarrow> bool \<times> state" where
  "checkAndMountSDCard sdBegin s =
     (if \<not> sdMounted s then
        if \<not> sdBegin then (False, s\<lparr>sdMounted := False\<rparr>)
        else (True, s\<lparr>sdMounted := True\<rparr>)
      else (True, s))"

text \<open>
  The loop \<^verbatim>\<open>while (wav->isRunning())\<close>, lines 273 to 279: a failed \<^verbatim>\<open>loop()\<close> calls
  \<^verbatim>\<open>wav->stop()\<close>, after which \<^verbatim>\<open>isRunning()\<close> is false.
\<close>

fun playLoop :: "bool list \<Rightarrow> state \<Rightarrow> state" where
  "playLoop [] s = s"
| "playLoop (ok # rest) s = (if \<not> ok then s else playLoop rest (emit AudioChunk s))"

text \<open>\<^verbatim>\<open>playWAV\<close>, lines 238 to 302, and \<^verbatim>\<open>playWAVTask\<close>, lines 305 to 309.\<close>

definition playWAV :: "audio \<Rightarrow> state \<Rightarrow> state option" where
  "playWAV a s =
     (case xSemaphoreTake s of
        None \<Rightarrow> None
      | Some s0 \<Rightarrow>
          let s1 = s0\<lparr>sdMounted := False\<rparr> in
          if \<not> sdLibBegin a then Some (xSemaphoreGive s1)
          else
            let s2 = xSemaphoreGive (s1\<lparr>audioSD := True\<rparr>) in
            if \<not> wavBegin a then Some s2
            else
              (case xSemaphoreTake (playLoop (wavLoops a) s2) of
                 None \<Rightarrow> None
               | Some s3 \<Rightarrow>
                   let s4 = s3\<lparr>audioSD := False\<rparr>;
                       r = checkAndMountSDCard (sdFatBegin a) s4
                   in if \<not> fst r then Some (xSemaphoreGive (snd r))
                      else Some (xSemaphoreGive (snd r))))"

definition playWAVTask :: "env \<Rightarrow> audio \<Rightarrow> state \<Rightarrow> state option" where
  "playWAVTask e a s = Option.bind (playWAV a s) (restartSlideshow e)"

section \<open>After an upload\<close>

text \<open>
  \<^verbatim>\<open>handleFileUpload\<close>, lines 389 to 482. The second component tells whether the handler
  created the playback task (\<^verbatim>\<open>sd.exists("/music.wav")\<close>); the task runs later, as
  \<open>playWAVTask\<close>.
\<close>

definition handleFileUpload :: "env \<Rightarrow> bool \<Rightarrow> state \<Rightarrow> (state \<times> bool) option" where
  "handleFileUpload e musicExists s =
     (case stopSlideshow s of
        None \<Rightarrow> None
      | Some s1 \<Rightarrow>
          let s2 = rebuildFileList e s1;
              s3 = s2\<lparr>currentIndex := 0\<rparr>
          in if musicExists then Some (s3, True)
             else map_option (\<lambda>s4. (s4, False)) (restartSlideshow e s3))"

section \<open>Serving the current image\<close>

text \<open>
  The filler the \<^verbatim>\<open>/current_image\<close> handler hands to \<^verbatim>\<open>beginChunkedResponse\<close>, lines 1167
  to 1176: one read of at most \<open>maxLen\<close> bytes from a file with \<open>remaining\<close> bytes left.
  It answers the number of bytes read, and gives the mutex when that number is 0.
\<close>

definition filler :: "nat \<Rightarrow> nat \<Rightarrow> state \<Rightarrow> nat \<times> nat \<times> state" where
  "filler maxLen remaining s =
     (let bytesRead = min maxLen remaining in
      (bytesRead, remaining - bytesRead, if bytesRead = 0 then xSemaphoreGive s else s))"

text \<open>
  The web server calls the filler again and again until it answers 0; when the client has
  gone, the server drops the response and calls the filler no more. \<open>client = None\<close> is a
  client that stays; \<open>client = Some k\<close> one that disconnects after \<open>k\<close> chunks.
\<close>

function chunked :: "nat \<Rightarrow> nat option \<Rightarrow> nat \<Rightarrow> state \<Rightarrow> state" where
  "chunked maxLen client remaining s =
     (if client = Some 0 then s
      else
        let r = filler maxLen remaining s in
        if fst r = 0 then snd (snd r)
        else chunked maxLen (map_option (\<lambda>k. k - 1) client) (fst (snd r)) (snd (snd r)))"
  by pat_completeness auto
termination
  by (relation "measure (\<lambda>(maxLen, client, remaining, s). remaining)")
     (auto simp: filler_def Let_def min_def split: if_splits)

declare chunked.simps [simp del]

text \<open>
  The handler, lines 1152 to 1183. \<open>openFile\<close> is \<^verbatim>\<open>file->open\<close>: the size of the file when
  it opens, \<open>None\<close> when it does not.
\<close>

definition currentImage ::
  "(string \<Rightarrow> nat option) \<Rightarrow> nat \<Rightarrow> nat option \<Rightarrow> state \<Rightarrow> (state \<times> response) option" where
  "currentImage openFile maxLen client s =
     (if currentImageName s = [] then Some (s, \<lparr>code = 404, message = ''No image''\<rparr>)
      else
        case xSemaphoreTake s of
          None \<Rightarrow> None
        | Some s1 \<Rightarrow>
            (case openFile (currentImageName s) of
               None \<Rightarrow> Some (xSemaphoreGive s1, \<lparr>code = 404, message = ''Image not found''\<rparr>)
             | Some sz \<Rightarrow>
                 Some (chunked maxLen client sz s1, \<lparr>code = 200, message = ''image/jpeg''\<rparr>)))"

section \<open>Concrete inputs\<close>

text \<open>The globals as the sketch initialises them (lines 87 to 118).\<close>

definition bootState :: state where
  "bootState = \<lparr>currentIndex = 0, fileCount = 0, timer = 0, X = 10, buttonPressed = False,
     sdMounted = False, slideshowActive = True, currentImageName = [], xSpiMutex = False,
     audioSD = False, trace = []\<rparr>"

text \<open>A card with three photographs, all of which decode.\<close>

definition threePhotos :: env where
  "threePhotos = \<lparr>dir = [\<lparr>getName = ''a.jpg'', isDirectory = False\<rparr>,
                          \<lparr>getName = ''b.jpg'', isDirectory = False\<rparr>,
                          \<lparr>getName = ''c.jpg'', isDirectory = False\<rparr>],
                   stackBytes = [], jpegOpen = (\<lambda>nm. True)\<rparr>"

text \<open>The same card when \<^verbatim>\<open>b.jpg\<close> is damaged and \<^verbatim>\<open>jpeg.open\<close> refuses it.\<close>

definition damagedPhoto :: env where
  "damagedPhoto = threePhotos\<lparr>jpegOpen := (\<lambda>nm. nm \<noteq> ''b.jpg'')\<rparr>"

text \<open>The slideshow running on that card and showing \<^verbatim>\<open>a.jpg\<close>.\<close>

definition running3 :: state where
  "running3 = bootState\<lparr>fileCount := 3, sdMounted := True, currentImageName := ''a.jpg''\<rparr>"

text \<open>The same slideshow just stopped by \<^verbatim>\<open>stopSlideshow\<close>.\<close>

definition stopped3 :: state where
  "stopped3 = running3\<lparr>slideshowActive := False, trace := [SemTake, SemGive]\<rparr>"

text \<open>The same slideshow stopped, with the timer last set at 51000 ms.\<close>

definition suspended3 :: state where
  "suspended3 = running3\<lparr>slideshowActive := False, timer := 51000\<rparr>"

text \<open>
  A card with 40000 photographs \<^verbatim>\<open>0.jpg\<close>, \<^verbatim>\<open>1.jpg\<close>, ..., and the slideshow on it showing
  the last of them: \<^verbatim>\<open>currentIndex\<close> holds the bits of 39999, and the button was just pressed.
\<close>

fun decimal :: "nat \<Rightarrow> string" where
  "decimal n = (if n < 10 then [char_of (48 + n)]
                else decimal (n div 10) @ [char_of (48 + n mod 10)])"

declare decimal.simps [simp del]

definition photos :: "nat \<Rightarrow> entry list" where
  "photos n = map (\<lambda>k. \<lparr>getName = decimal k @ ''.jpg'', isDirectory = False\<rparr>) [0..<n]"

definition manyPhotos :: env where
  "manyPhotos = \<lparr>dir = photos 40000, stackBytes = [], jpegOpen = (\<lambda>nm. True)\<rparr>"

definition atLast :: state where
  "atLast = bootState\<lparr>fileCount := 40000, currentIndex := 39999, sdMounted := True,
              currentImageName := ''39999.jpg'', buttonPressed := True\<rparr>"

text \<open>
  A card with two photographs, a write-protected one (\<^verbatim>\<open>sd.remove\<close> fails on it) and the
  sound file, and a request to delete five names: one is not on the card, and \<^verbatim>\<open>a.jpg\<close> is
  named twice.
\<close>

definition cardFiles :: "string set" where
  "cardFiles = {''/a.jpg'', ''/b.jpg'', ''/locked.jpg'', ''/music.wav''}"

definition removable :: "string \<Rightarrow> bool" where
  "removable path = (path \<noteq> ''/locked.jpg'')"

definition batch :: "param list" where
  "batch = [\<lparr>pname = ''file'', pvalue = ''a.jpg'', isPost = True, isFile = False\<rparr>,
            \<lparr>pname = ''file'', pvalue = ''ghost.jpg'', isPost = True, isFile = False\<rparr>,
            \<lparr>pname = ''file'', pvalue = ''locked.jpg'', isPost = True, isFile = False\<rparr>,
            \<lparr>pname = ''file'', pvalue = ''a.jpg'', isPost = True, isFile = False\<rparr>,
            \<lparr>pname = ''file'', pvalue = ''b.jpg'', isPost = True, isFile = False\<rparr>]"

text \<open>A card on which a folder is called \<^verbatim>\<open>pics.jpg\<close>, next to one photograph.\<close>

definition cardWithFolder :: env where
  "cardWithFolder = \<lparr>dir = [\<lparr>getName = ''pics.jpg'', isDirectory = True\<rparr>,
                            \<lparr>getName = ''a.jpg'', isDirectory = False\<rparr>],
                     stackBytes = [], jpegOpen = (\<lambda>nm. True)\<rparr>"

text \<open>
  Two playbacks: one where \<^verbatim>\<open>wav->begin\<close> fails, and one where the third \<^verbatim>\<open>wav->loop()\<close>
  fails in the middle of the file.
\<close>

definition beginFails :: audio where
  "beginFails = \<lparr>sdLibBegin = True, wavBegin = False, wavLoops = [], sdFatBegin = True\<rparr>"

definition decodeFails :: audio where
  "decodeFails = \<lparr>sdLibBegin = True, wavBegin = True, wavLoops = [True, True, False, True],
                   sdFatBegin = True\<rparr>"

text \<open>
  The state an aborted \<^verbatim>\<open>/current_image\<close> request leaves behind: the mutex taken and never
  given.
\<close>

definition afterAbort :: state where
  "afterAbort = running3\<lparr>xSpiMutex := True, trace := [SemTake]\<rparr>"

text \<open>A file of 1000 bytes behind every name, and one that does not open.\<close>

definition opens1000 :: "string \<Rightarrow> nat option" where
  "opens1000 nm = Some 1000"

definition opensNot :: "string \<Rightarrow> nat option" where
  "opensNot nm = None"

text \<open>Requests to \<^verbatim>\<open>/set-speed\<close> with one posted \<^verbatim>\<open>speed\<close> parameter.\<close>

definition speedRequest :: "string \<Rightarrow> param list" where
  "speedRequest v = [\<lparr>pname = ''speed'', pvalue = v, isPost = True, isFile = False\<rparr>]"

section \<open>Facts about the model\<close>

lemmas prims = decodeJpeg_def xSemaphoreTake_def xSemaphoreGive_def emit_def Let_def

subsection \<open>Finding the file with a given ordinal\<close>

lemma word16_step:
  fixes index :: "16 word"
  assumes "index \<le> targetIndex" "index \<noteq> targetIndex"
  shows "index + 1 \<le> targetIndex" and "unat (index + 1) = Suc (unat index)"
proof -
  from assms have lt: "index < targetIndex" by simp
  then show "index + 1 \<le> targetIndex" by (rule inc_le)
  from lt have "unat index < unat targetIndex" by (simp add: word_less_nat_alt)
  moreover have "unat targetIndex < 2 ^ 16" using unsigned_less [of targetIndex] by simp
  ultimately have "unat index + 1 < 2 ^ 16" by simp
  then show "unat (index + 1) = Suc (unat index)"
    by (simp add: unat_word_ariths)
qed

lemma scanDir_found:
  "index \<le> targetIndex \<Longrightarrow>
   unat targetIndex - unat index < length (eligibleIn (stackBytes e) xs) \<Longrightarrow>
   scanDir e xs index targetIndex s =
     shown e (getName (eligibleIn (stackBytes e) xs ! (unat targetIndex - unat index))) s"
proof (induction xs arbitrary: index)
  case Nil
  then show ?case by (simp add: eligibleIn_def)
next
  case (Cons x xs)
  show ?case
  proof (cases "\<not> isDirectory x \<and> isJpg (stackBytes e) (getName x)")
    case False
    with Cons show ?thesis by (auto simp: eligibleIn_def)
  next
    case match: True
    show ?thesis
    proof (cases "index = targetIndex")
      case True
      with match show ?thesis by (simp add: eligibleIn_def shown_def)
    next
      case False
      from word16_step [OF Cons.prems(1) False]
      have le: "index + 1 \<le> targetIndex" and un: "unat (index + 1) = Suc (unat index)"
        by auto
      from Cons.prems(1) False have "unat index < unat targetIndex"
        by (simp add: word_less_nat_alt word_le_less_eq)
      then obtain k where k: "unat targetIndex - unat index = Suc k"
        by (cases "unat targetIndex - unat index") auto
      then have k': "unat targetIndex - unat (index + 1) = k" using un by simp
      from Cons.prems(2) match k have "k < length (eligibleIn (stackBytes e) xs)"
        by (simp add: eligibleIn_def)
      with Cons.IH [OF le] k' have
        "scanDir e xs (index + 1) targetIndex s =
           shown e (getName (eligibleIn (stackBytes e) xs ! k)) s"
        by simp
      with match False k show ?thesis by (simp add: eligibleIn_def)
    qed
  qed
qed

lemma scanDir_not_found:
  "index \<le> targetIndex \<Longrightarrow>
   length (eligibleIn (stackBytes e) xs) \<le> unat targetIndex - unat index \<Longrightarrow>
   scanDir e xs index targetIndex s = Some s"
proof (induction xs arbitrary: index)
  case Nil
  then show ?case by simp
next
  case (Cons x xs)
  show ?case
  proof (cases "\<not> isDirectory x \<and> isJpg (stackBytes e) (getName x)")
    case False
    with Cons show ?thesis by (auto simp: eligibleIn_def)
  next
    case match: True
    with Cons.prems(2) have "0 < unat targetIndex - unat index"
      by (simp add: eligibleIn_def)
    then have ne: "index \<noteq> targetIndex" by auto
    from word16_step [OF Cons.prems(1) ne]
    have le: "index + 1 \<le> targetIndex" and un: "unat (index + 1) = Suc (unat index)"
      by auto
    from Cons.prems(2) match un
    have "length (eligibleIn (stackBytes e) xs) \<le> unat targetIndex - unat (index + 1)"
      by (simp add: eligibleIn_def)
    with Cons.IH [OF le] have "scanDir e xs (index + 1) targetIndex s = Some s" by simp
    with match ne show ?thesis by simp
  qed
qed

lemma loadImage_found:
  assumes "slideshowActive s"
    and "unat (if fileCount s \<le> i then 0 else i) < length (eligible e)"
  shows "loadImage e i s =
     shown e (getName (eligible e ! unat (if fileCount s \<le> i then 0 else i))) s"
  using assms scanDir_found [of 0 "if fileCount s \<le> i then 0 else i" e "dir e" s]
  by (simp add: loadImage_def eligible_def)

lemma loadImage_not_found:
  assumes "length (eligible e) \<le> unat (if fileCount s \<le> i then 0 else i)"
  shows "loadImage e i s = Some s"
  using assms scanDir_not_found [of 0 "if fileCount s \<le> i then 0 else i" e "dir e" s]
  by (simp add: loadImage_def eligible_def)

subsection \<open>What showing a file changes\<close>

lemma shown_free:
  "slideshowActive s \<Longrightarrow> \<not> xSpiMutex s \<Longrightarrow>
   shown e nm s =
     Some (s\<lparr>currentImageName := nm,
             trace := trace s @
               (if jpegOpen e nm then [SemTake, Paint nm, SemGive, WsTextAll ''update'']
                else [SemTake, SemGive, WsTextAll ''update''])\<rparr>)"
  by (cases s) (simp add: shown_def prims)

lemma shown_held: "slideshowActive s \<Longrightarrow> xSpiMutex s \<Longrightarrow> shown e nm s = None"
  by (simp add: shown_def prims)

subsection \<open>Which file an index shows\<close>

lemma resolved_index:
  fixes i fc :: "16 word"
  shows "unat (if fc \<le> i then 0 else i) = (if i < fc then unat i else 0)"
  by (auto simp: not_le)

lemma loadImage_shows:
  assumes "slideshowActive s" and "\<not> xSpiMutex s"
    and "(if i < fileCount s then unat i else 0) < length (eligible e)"
  shows "loadImage e i s =
     Some (s\<lparr>currentImageName := getName (eligible e ! (if i < fileCount s then unat i else 0)),
             trace := trace s @
               (if jpegOpen e (getName (eligible e ! (if i < fileCount s then unat i else 0)))
                then [SemTake, Paint (getName (eligible e ! (if i < fileCount s then unat i else 0))),
                      SemGive, WsTextAll ''update'']
                else [SemTake, SemGive, WsTextAll ''update''])\<rparr>)"
proof -
  from assms(3) have "unat (if fileCount s \<le> i then 0 else i) < length (eligible e)"
    by (simp only: resolved_index)
  from loadImage_found [OF assms(1) this] shown_free [OF assms(1,2)]
  show ?thesis by (simp only: resolved_index)
qed

lemma loadImage_nothing:
  assumes "\<not> slideshowActive s \<or> length (eligible e) \<le> (if i < fileCount s then unat i else 0)"
  shows "loadImage e i s = Some s"
  using assms
proof
  assume "\<not> slideshowActive s"
  then show ?thesis by (simp add: loadImage_def)
next
  assume "length (eligible e) \<le> (if i < fileCount s then unat i else 0)"
  then have "length (eligible e) \<le> unat (if fileCount s \<le> i then 0 else i)"
    by (simp only: resolved_index)
  then show ?thesis by (rule loadImage_not_found)
qed

lemma loadImage_blocks:
  assumes "slideshowActive s" and "xSpiMutex s"
    and "(if i < fileCount s then unat i else 0) < length (eligible e)"
  shows "loadImage e i s = None"
proof -
  from assms(3) have "unat (if fileCount s \<le> i then 0 else i) < length (eligible e)"
    by (simp only: resolved_index)
  from loadImage_found [OF assms(1) this] shown_held [OF assms(1,2)]
  show ?thesis by simp
qed

text \<open>With the mutex free \<^verbatim>\<open>loadImage\<close> returns, and it leaves the mutex free.\<close>

lemma loadImage_returns:
  assumes "\<not> xSpiMutex s"
  shows "\<exists>s'. loadImage e i s = Some s' \<and> \<not> xSpiMutex s' \<and>
     currentIndex s' = currentIndex s \<and> fileCount s' = fileCount s \<and> timer s' = timer s \<and>
     X s' = X s \<and> buttonPressed s' = buttonPressed s \<and> sdMounted s' = sdMounted s \<and>
     slideshowActive s' = slideshowActive s \<and> audioSD s' = audioSD s"
proof (cases "slideshowActive s \<and> (if i < fileCount s then unat i else 0) < length (eligible e)")
  case True
  with assms loadImage_shows [of s i e] show ?thesis by simp
next
  case False
  then have "loadImage e i s = Some s" by (intro loadImage_nothing) auto
  with assms show ?thesis by simp
qed

section \<open>The statements of the specification\<close>

subsection \<open>The SPI mutex\<close>

text \<open>
  C1 at a failing input. A viewer asks for \<^verbatim>\<open>/current_image\<close> while \<^verbatim>\<open>a.jpg\<close> (1000
  bytes) is shown, receives the first chunk of 512 bytes and disconnects. The handler took
  the mutex once; the filler never sees a read of 0 bytes, so the mutex is never given
  and stays taken, and the next \<^verbatim>\<open>loadImage\<close> never returns from its take. The same
  request from a client that stays gives the mutex once, and so does the request for a
  file that does not open.
\<close>

theorem currentImage_abort_keeps_mutex:
  "currentImage opens1000 512 (Some 1) running3 =
     Some (afterAbort, \<lparr>code = 200, message = ''image/jpeg''\<rparr>) \<and>
   xSpiMutex afterAbort \<and> takes afterAbort = 1 \<and> gives afterAbort = 0 \<and>
   loadImage threePhotos 1 afterAbort = None \<and>
   map_option (\<lambda>r. xSpiMutex (fst r)) (currentImage opens1000 512 None running3) = Some False \<and>
   map_option (\<lambda>r. gives (fst r)) (currentImage opens1000 512 None running3) = Some 1 \<and>
   map_option (\<lambda>r. xSpiMutex (fst r)) (currentImage opensNot 512 None running3) = Some False \<and>
   map_option (\<lambda>r. gives (fst r)) (currentImage opensNot 512 None running3) = Some 1"
  by code_simp

subsection \<open>The playback task\<close>

text \<open>
  C2 at a failing input. The slideshow was stopped for a playback and SdFat is mounted.
  When \<^verbatim>\<open>wav->begin\<close> fails, \<^verbatim>\<open>playWAV\<close> returns at once: after the task SdFat is still
  unmounted and the standard SD library is still mounted, while the slideshow is switched
  on again. When instead a \<^verbatim>\<open>wav->loop()\<close> fails in the middle of the file, the task
  ends the SD library and mounts SdFat again.
\<close>

theorem playWAVTask_begin_failure_no_restore:
  "stopSlideshow running3 = Some stopped3 \<and> sdMounted stopped3 \<and> \<not> audioSD stopped3 \<and>
   map_option (\<lambda>s. (sdMounted s, audioSD s, slideshowActive s))
     (playWAVTask threePhotos beginFails stopped3) = Some (False, True, True) \<and>
   map_option (\<lambda>s. (sdMounted s, audioSD s, slideshowActive s))
     (playWAVTask threePhotos decodeFails stopped3) = Some (True, False, True)"
  by code_simp

subsection \<open>Rendering and the name served to viewers\<close>

text \<open>
  C3 as the code has it. When \<^verbatim>\<open>loadImage\<close> runs with the slideshow active and the mutex
  free, and a file with the wanted ordinal exists, it stores that file's name in
  \<^verbatim>\<open>currentImageName\<close> before decoding and broadcasts one \<^verbatim>\<open>update\<close> after \<^verbatim>\<open>decodeJpeg\<close>
  returns, whether \<^verbatim>\<open>jpeg.open\<close> succeeded or not; a failed open only means that nothing
  is painted. When the slideshow is stopped or no file has that ordinal, the state stays
  as it was.
\<close>

theorem loadImage_name_and_update:
  "(slideshowActive s \<and> \<not> xSpiMutex s \<and>
    (if i < fileCount s then unat i else 0) < length (eligible e) \<longrightarrow>
      (let nm = getName (eligible e ! (if i < fileCount s then unat i else 0)) in
       loadImage e i s =
         Some (s\<lparr>currentImageName := nm,
                 trace := trace s @
                   (if jpegOpen e nm then [SemTake, Paint nm, SemGive, WsTextAll ''update'']
                    else [SemTake, SemGive, WsTextAll ''update''])\<rparr>) \<and>
       map_option updates (loadImage e i s) = Some (Suc (updates s)))) \<and>
   (\<not> slideshowActive s \<or> length (eligible e) \<le> (if i < fileCount s then unat i else 0) \<longrightarrow>
      loadImage e i s = Some s)"
proof (intro conjI impI)
  assume a: "slideshowActive s \<and> \<not> xSpiMutex s \<and>
    (if i < fileCount s then unat i else 0) < length (eligible e)"
  then have l: "loadImage e i s =
     Some (s\<lparr>currentImageName := getName (eligible e ! (if i < fileCount s then unat i else 0)),
             trace := trace s @
               (if jpegOpen e (getName (eligible e ! (if i < fileCount s then unat i else 0)))
                then [SemTake, Paint (getName (eligible e ! (if i < fileCount s then unat i else 0))),
                      SemGive, WsTextAll ''update'']
                else [SemTake, SemGive, WsTextAll ''update''])\<rparr>)"
    by (intro loadImage_shows) simp_all
  then have "map_option updates (loadImage e i s) = Some (Suc (updates s))"
    by (simp add: updates_def)
  with l show "let nm = getName (eligible e ! (if i < fileCount s then unat i else 0)) in
       loadImage e i s =
         Some (s\<lparr>currentImageName := nm,
                 trace := trace s @
                   (if jpegOpen e nm then [SemTake, Paint nm, SemGive, WsTextAll ''update'']
                    else [SemTake, SemGive, WsTextAll ''update''])\<rparr>) \<and>
       map_option updates (loadImage e i s) = Some (Suc (updates s))"
    by (simp only: Let_def simp_thms)
next
  assume "\<not> slideshowActive s \<or> length (eligible e) \<le> (if i < fileCount s then unat i else 0)"
  then show "loadImage e i s = Some s" by (rule loadImage_nothing)
qed

theorem loadImage_name_and_update_witness:
  "slideshowActive running3 \<and> \<not> xSpiMutex running3 \<and>
   (if (2 :: 16 word) < fileCount running3 then unat (2 :: 16 word) else 0)
      < length (eligible threePhotos) \<and>
   loadImage threePhotos 2 running3 =
     Some (running3\<lparr>currentImageName := ''c.jpg'',
                    trace := trace running3 @ [SemTake, Paint ''c.jpg'', SemGive, WsTextAll ''update'']\<rparr>) \<and>
   map_option updates (loadImage threePhotos 2 running3) = Some (Suc (updates running3)) \<and>
   \<not> slideshowActive suspended3 \<and>
   loadImage threePhotos 2 suspended3 = Some suspended3"
proof -
  have h: "slideshowActive running3 \<and> \<not> xSpiMutex running3 \<and>
     (if (2 :: 16 word) < fileCount running3 then unat (2 :: 16 word) else 0)
        < length (eligible threePhotos)"
    by code_simp
  have nm: "getName (eligible threePhotos !
      (if (2 :: 16 word) < fileCount running3 then unat (2 :: 16 word) else 0)) = ''c.jpg''"
    by code_simp
  have op: "jpegOpen threePhotos ''c.jpg''" by code_simp
  have h3: "\<not> slideshowActive suspended3" by code_simp
  from loadImage_name_and_update [of running3 2 threePhotos] h
  have "let nm = getName (eligible threePhotos !
             (if (2 :: 16 word) < fileCount running3 then unat (2 :: 16 word) else 0)) in
       loadImage threePhotos 2 running3 =
         Some (running3\<lparr>currentImageName := nm,
                 trace := trace running3 @
                   (if jpegOpen threePhotos nm then [SemTake, Paint nm, SemGive, WsTextAll ''update'']
                    else [SemTake, SemGive, WsTextAll ''update''])\<rparr>) \<and>
       map_option updates (loadImage threePhotos 2 running3) = Some (Suc (updates running3))"
    by blast
  then have a: "loadImage threePhotos 2 running3 =
     Some (running3\<lparr>currentImageName := ''c.jpg'',
                    trace := trace running3 @ [SemTake, Paint ''c.jpg'', SemGive, WsTextAll ''update'']\<rparr>) \<and>
     map_option updates (loadImage threePhotos 2 running3) = Some (Suc (updates running3))"
    unfolding Let_def nm if_P [OF op] .
  from loadImage_name_and_update [of suspended3 2 threePhotos] h3
  have b: "loadImage threePhotos 2 suspended3 = Some suspended3" by blast
  from h a h3 b show ?thesis by blast
qed

text \<open>
  C3 as stated fails: with \<^verbatim>\<open>b.jpg\<close> damaged, so that \<^verbatim>\<open>jpeg.open\<close> fails and nothing is
  painted, \<^verbatim>\<open>loadImage(1)\<close> still replaces the name \<^verbatim>\<open>a.jpg\<close> by \<^verbatim>\<open>b.jpg\<close> and still
  broadcasts \<^verbatim>\<open>update\<close>.
\<close>

theorem loadImage_failed_decode_counterexample:
  "\<not> jpegOpen damagedPhoto ''b.jpg'' \<and>
   slideshowActive running3 \<and> \<not> xSpiMutex running3 \<and>
   currentImageName running3 = ''a.jpg'' \<and> trace running3 = [] \<and>
   loadImage damagedPhoto 1 running3 =
     Some (running3\<lparr>currentImageName := ''b.jpg'',
                    trace := [SemTake, SemGive, WsTextAll ''update'']\<rparr>) \<and>
   updates running3 = 0 \<and>
   map_option updates (loadImage damagedPhoto 1 running3) = Some 1"
  by code_simp

subsection \<open>An index past the end of the catalog\<close>

text \<open>
  C4 as the code has it. With the slideshow active, the mutex free and \<^verbatim>\<open>fileCount\<close> equal
  to the number of files \<^verbatim>\<open>loadImage\<close> can show, at least one, \<^verbatim>\<open>loadImage(i)\<close> takes the
  file with ordinal \<open>i\<close> when \<open>i\<close> is below the count and the file with ordinal 0 for
  every other \<open>i\<close> (not the one with ordinal \<open>i mod count\<close>). It stores the name of that
  file, takes the mutex, paints the file when \<^verbatim>\<open>jpeg.open\<close> accepts it (and paints nothing
  when it does not), gives the mutex and broadcasts one \<^verbatim>\<open>update\<close>. There is no error
  path: every index is served in this way.
\<close>

theorem loadImage_out_of_range_first:
  assumes "slideshowActive s" and "\<not> xSpiMutex s"
    and "0 < fileCount s"
    and "unat (fileCount s) = length (eligible e)"
  shows "loadImage e i s = loadImage e (if i < fileCount s then i else 0) s \<and>
     (let nm = getName (eligible e ! (if i < fileCount s then unat i else 0)) in
      loadImage e i s =
        Some (s\<lparr>currentImageName := nm,
                trace := trace s @
                  (if jpegOpen e nm then [SemTake, Paint nm, SemGive, WsTextAll ''update'']
                   else [SemTake, SemGive, WsTextAll ''update''])\<rparr>))"
proof -
  have "(if i < fileCount s then unat i else 0) < unat (fileCount s)"
    using assms(3) by (auto simp: word_less_nat_alt)
  with assms(4) have lt: "(if i < fileCount s then unat i else 0) < length (eligible e)"
    by simp
  have same: "loadImage e i s = loadImage e (if i < fileCount s then i else 0) s"
    using assms(3) by (auto simp: loadImage_def not_le not_less)
  from loadImage_shows [OF assms(1,2) lt] same show ?thesis
    by (simp only: Let_def simp_thms)
qed

theorem loadImage_out_of_range_first_witness:
  "slideshowActive running3 \<and> \<not> xSpiMutex running3 \<and> 0 < fileCount running3 \<and>
   unat (fileCount running3) = length (eligible threePhotos) \<and>
   loadImage threePhotos 5 running3 = loadImage threePhotos 0 running3 \<and>
   loadImage threePhotos 5 running3 =
     Some (running3\<lparr>currentImageName := ''a.jpg'',
                    trace := trace running3 @ [SemTake, Paint ''a.jpg'', SemGive, WsTextAll ''update'']\<rparr>)"
proof -
  have h1: "slideshowActive running3" by code_simp
  have h2: "\<not> xSpiMutex running3" by code_simp
  have h3: "0 < fileCount running3" by code_simp
  have h4: "unat (fileCount running3) = length (eligible threePhotos)" by code_simp
  have h5: "\<not> (5 :: 16 word) < fileCount running3" by code_simp
  have nm: "getName (eligible threePhotos ! 0) = ''a.jpg''" by code_simp
  have op: "jpegOpen threePhotos ''a.jpg''" by code_simp
  note c = loadImage_out_of_range_first [OF h1 h2 h3 h4, of 5,
      unfolded if_not_P [OF h5] Let_def nm if_P [OF op]]
  from h1 h2 h3 h4 c show ?thesis by blast
qed

text \<open>
  C4 as stated fails: on the card with \<^verbatim>\<open>a.jpg\<close>, \<^verbatim>\<open>b.jpg\<close>, \<^verbatim>\<open>c.jpg\<close> and a count of 3,
  \<^verbatim>\<open>loadImage(4)\<close> paints \<^verbatim>\<open>a.jpg\<close>, while the file with ordinal \<open>4 mod 3\<close> is \<^verbatim>\<open>b.jpg\<close>.
\<close>

theorem loadImage_wrap_counterexample:
  "slideshowActive running3 \<and> \<not> xSpiMutex running3 \<and> unat (fileCount running3) = 3 \<and>
   length (eligible threePhotos) = 3 \<and>
   map_option currentImageName (loadImage threePhotos 4 running3) = Some ''a.jpg'' \<and>
   map_option trace (loadImage threePhotos 4 running3) =
     Some [SemTake, Paint ''a.jpg'', SemGive, WsTextAll ''update''] \<and>
   getName (eligible threePhotos ! (4 mod 3)) = ''b.jpg''"
  by code_simp

subsection \<open>Resuming the slideshow\<close>




subsection \<open>Advancing\<close>

lemma jpg_suffix: "isJpg pre (nm @ ''.jpg'')"
proof -
  have "strcasecmp_eq ''jpg'' ''JPG''" by code_simp
  then show ?thesis by (simp add: isJpg_def lastThree_def)
qed

lemma photos_all_eligible: "eligibleIn pre (photos n) = photos n"
  by (simp add: eligibleIn_def photos_def jpg_suffix)

lemma manyPhotos_eligible:
  "length (eligible manyPhotos) = 40000"
  "getName (eligible manyPhotos ! 0) = ''0.jpg''"
  "getName (eligible manyPhotos ! 1) = ''1.jpg''"
proof -
  have e: "eligible manyPhotos = photos 40000"
    by (simp add: eligible_def manyPhotos_def photos_all_eligible)
  have d: "decimal 0 = ''0''" "decimal (Suc 0) = ''1''" by code_simp+
  show "length (eligible manyPhotos) = 40000" by (simp add: e photos_def)
  have "photos 40000 ! 0 = \<lparr>getName = decimal 0 @ ''.jpg'', isDirectory = False\<rparr>"
    unfolding photos_def by (subst nth_map) simp_all
  then show "getName (eligible manyPhotos ! 0) = ''0.jpg''" by (simp add: e d)
  have "photos 40000 ! 1 = \<lparr>getName = decimal 1 @ ''.jpg'', isDirectory = False\<rparr>"
    unfolding photos_def by (subst nth_map) simp_all
  then show "getName (eligible manyPhotos ! 1) = ''1.jpg''" by (simp add: e d)
qed

lemma loadImage_manyPhotos_past_count:
  assumes "slideshowActive s" and "\<not> xSpiMutex s" and "fileCount s = 40000"
    and "\<not> i < (40000 :: 16 word)"
  shows "loadImage manyPhotos i s =
     Some (s\<lparr>currentImageName := ''0.jpg'',
             trace := trace s @ [SemTake, Paint ''0.jpg'', SemGive, WsTextAll ''update'']\<rparr>)"
proof -
  from assms(3,4) have r: "(if i < fileCount s then unat i else 0) = 0" by simp
  have op: "jpegOpen manyPhotos ''0.jpg''" by (simp add: manyPhotos_def)
  have "(if i < fileCount s then unat i else 0) < length (eligible manyPhotos)"
    unfolding r by (simp add: manyPhotos_eligible)
  from loadImage_shows [OF assms(1,2) this] show ?thesis
    unfolding r manyPhotos_eligible(2) if_P [OF op] .
qed

text \<open>
  C6 at a failing input. The card holds 40000 photographs and the slideshow shows the
  last one, \<^verbatim>\<open>currentIndex\<close> holding the bits of 39999 (as an \<^verbatim>\<open>int16_t\<close>, \<open>-25537\<close>). The
  next advance computes \<open>-25536\<close>, whose bits are 40000: \<^verbatim>\<open>loadImage\<close> resets that
  to 0 and shows \<^verbatim>\<open>0.jpg\<close>, but the index is not 0. The advance after it computes
  \<open>-25535\<close>, bits 40001, and shows \<^verbatim>\<open>0.jpg\<close> again, where the file with ordinal 1 is
  \<^verbatim>\<open>1.jpg\<close>.
\<close>

theorem loop_stuck_past_count:
  "uint (fileCount atLast) = 40000 \<and> length (eligible manyPhotos) = 40000 \<and>
   uint (currentIndex atLast) = 39999 \<and> sint (currentIndex atLast) = - 25537 \<and>
   getName (eligible manyPhotos ! 0) = ''0.jpg'' \<and>
   getName (eligible manyPhotos ! 1) = ''1.jpg'' \<and>
   loop manyPhotos 0 0 atLast =
     Some (atLast\<lparr>currentIndex := 40000, buttonPressed := False,
                  currentImageName := ''0.jpg'',
                  trace := [SemTake, Paint ''0.jpg'', SemGive, WsTextAll ''update'']\<rparr>) \<and>
   Option.bind (loop manyPhotos 0 0 atLast) (\<lambda>s. loop manyPhotos 0 0 (buttonInt s)) =
     Some (atLast\<lparr>currentIndex := 40001, buttonPressed := False,
                  currentImageName := ''0.jpg'',
                  trace := [SemTake, Paint ''0.jpg'', SemGive, WsTextAll ''update'',
                            SemTake, Paint ''0.jpg'', SemGive, WsTextAll ''update'']\<rparr>)"
proof -
  let ?s1 = "atLast\<lparr>currentIndex := 40000\<rparr>"
  let ?r1 = "atLast\<lparr>currentIndex := 40000, buttonPressed := False,
                  currentImageName := ''0.jpg'',
                  trace := [SemTake, Paint ''0.jpg'', SemGive, WsTextAll ''update'']\<rparr>"
  let ?s2 = "(buttonInt ?r1)\<lparr>currentIndex := 40001\<rparr>"
  have a: "uint (fileCount atLast) = 40000" "uint (currentIndex atLast) = 39999"
    "sint (currentIndex atLast) = - 25537"
    by (simp_all add: atLast_def bootState_def)
  have n1: "(word_of_int (c_mod (sint (currentIndex atLast) + 1) (uint (fileCount atLast)))
      :: 16 word) = 40000"
    unfolding a by (simp add: c_mod_def)
  have n2: "(word_of_int (c_mod (sint (currentIndex (buttonInt ?r1)) + 1)
      (uint (fileCount (buttonInt ?r1)))) :: 16 word) = 40001"
    by (simp add: c_mod_def buttonInt_def atLast_def bootState_def)
  have l1: "loadImage manyPhotos 40000 ?s1 =
     Some (?s1\<lparr>currentImageName := ''0.jpg'',
             trace := trace ?s1 @ [SemTake, Paint ''0.jpg'', SemGive, WsTextAll ''update'']\<rparr>)"
    by (rule loadImage_manyPhotos_past_count) (simp_all add: atLast_def bootState_def)
  have l2: "loadImage manyPhotos 40001 ?s2 =
     Some (?s2\<lparr>currentImageName := ''0.jpg'',
             trace := trace ?s2 @ [SemTake, Paint ''0.jpg'', SemGive, WsTextAll ''update'']\<rparr>)"
    by (rule loadImage_manyPhotos_past_count)
       (simp_all add: buttonInt_def atLast_def bootState_def)
  have step1: "loop manyPhotos 0 0 atLast = Some ?r1"
    unfolding loop_def Let_def n1
    by (simp add: l1) (simp add: atLast_def bootState_def)
  have step2: "loop manyPhotos 0 0 (buttonInt ?r1) =
     Some (atLast\<lparr>currentIndex := 40001, buttonPressed := False,
                  currentImageName := ''0.jpg'',
                  trace := [SemTake, Paint ''0.jpg'', SemGive, WsTextAll ''update'',
                            SemTake, Paint ''0.jpg'', SemGive, WsTextAll ''update'']\<rparr>)"
    unfolding loop_def Let_def n2
    by (simp add: l2) (simp add: buttonInt_def atLast_def bootState_def)
  from step1 step2 have both:
    "Option.bind (loop manyPhotos 0 0 atLast) (\<lambda>s. loop manyPhotos 0 0 (buttonInt s)) =
     Some (atLast\<lparr>currentIndex := 40001, buttonPressed := False,
                  currentImageName := ''0.jpg'',
                  trace := [SemTake, Paint ''0.jpg'', SemGive, WsTextAll ''update'',
                            SemTake, Paint ''0.jpg'', SemGive, WsTextAll ''update'']\<rparr>)"
    by simp
  from a manyPhotos_eligible step1 both show ?thesis by (intro conjI)
qed

subsection \<open>Counting the files\<close>

text \<open>
  C7 at a failing input. On a card with a folder called \<^verbatim>\<open>pics.jpg\<close> and one photograph,
  the counting loop counts 2, since it does not look at \<^verbatim>\<open>isDirectory\<close>, while
  \<^verbatim>\<open>loadImage\<close> can show one file only: with that count, \<^verbatim>\<open>loadImage(1)\<close> finds nothing
  and changes nothing.
\<close>

theorem countLoop_counts_folder:
  "fileCount (rebuildFileList cardWithFolder bootState) = 2 \<and>
   map_option (\<lambda>r. fileCount (fst r)) (handleFileUpload cardWithFolder False bootState) = Some 2 \<and>
   length (eligible cardWithFolder) = 1 \<and>
   loadImage cardWithFolder 1 (rebuildFileList cardWithFolder bootState) =
     Some (rebuildFileList cardWithFolder bootState)"
  by code_simp

subsection \<open>Deleting a batch of files\<close>

lemma posted_Cons:
  "posted (p # ps) = (if isPost p then (''/'' @ pvalue p) # posted ps else posted ps)"
  by (simp add: posted_def)

lemma deleteLoop_files:
  "files (deleteLoop rm ps d) = files d - {n \<in> set (posted ps). rm n}"
  by (induction ps arbitrary: d) (auto simp: posted_def Let_def)

lemma deleteLoop_success:
  "(deletionSuccess d \<longleftrightarrow> (\<forall>r \<in> set (serial d). snd r = Deleted)) \<Longrightarrow>
   (deletionSuccess (deleteLoop rm ps d) \<longleftrightarrow>
      (\<forall>r \<in> set (serial (deleteLoop rm ps d)). snd r = Deleted))"
proof (induction ps arbitrary: d)
  case Nil
  then show ?case by simp
next
  case (Cons p ps)
  let ?n = "''/'' @ pvalue p"
  show ?case
  proof (cases "isPost p")
    case False
    with Cons show ?thesis by simp
  next
    case post: True
    show ?thesis
    proof (cases "?n \<in> files d")
      case False
      let ?d = "d\<lparr>deletionSuccess := False, serial := serial d @ [(?n, NotFound)]\<rparr>"
      have "deletionSuccess ?d \<longleftrightarrow> (\<forall>r \<in> set (serial ?d). snd r = Deleted)" by simp
      from Cons.IH [OF this] post False show ?thesis by (simp add: Let_def)
    next
      case present: True
      show ?thesis
      proof (cases "rm ?n")
        case False
        let ?d = "d\<lparr>deletionSuccess := False, serial := serial d @ [(?n, FailedToDelete)]\<rparr>"
        have "deletionSuccess ?d \<longleftrightarrow> (\<forall>r \<in> set (serial ?d). snd r = Deleted)" by simp
        from Cons.IH [OF this] post present False show ?thesis by (simp add: Let_def)
      next
        case True
        let ?d = "d\<lparr>files := files d - {?n}, serial := serial d @ [(?n, Deleted)]\<rparr>"
        have "deletionSuccess ?d \<longleftrightarrow> (\<forall>r \<in> set (serial ?d). snd r = Deleted)"
          using Cons.prems by simp
        from Cons.IH [OF this] post present True show ?thesis by (simp add: Let_def)
      qed
    qed
  qed
qed

lemma printed_0:
  "printed rm F (n # ns) 0 =
     (n, if n \<in> F then (if rm n then Deleted else FailedToDelete) else NotFound)"
  by (simp add: printed_def)

lemma printed_Suc:
  "printed rm F (n # ns) (Suc k) = printed rm (if rm n then F - {n} else F) ns k"
proof -
  have "F - {m \<in> set (take (Suc k) (n # ns)). rm m} =
        (if rm n then F - {n} else F) - {m \<in> set (take k ns). rm m}"
    by auto
  then show ?thesis by (simp add: printed_def)
qed

lemma deleteLoop_serial:
  "serial (deleteLoop rm ps d) =
     serial d @ map (printed rm (files d) (posted ps)) [0..<length (posted ps)]"
proof (induction ps arbitrary: d)
  case Nil
  show ?case by (simp add: posted_def)
next
  case (Cons p ps)
  let ?n = "''/'' @ pvalue p"
  show ?case
  proof (cases "isPost p")
    case False
    with Cons.IH [of d] show ?thesis by (simp add: posted_Cons)
  next
    case post: True
    then have pc: "posted (p # ps) = ?n # posted ps" by (simp add: posted_Cons)
    have split: "map (printed rm F (?n # posted ps)) [0..<length (?n # posted ps)] =
        printed rm F (?n # posted ps) 0 #
        map (printed rm (if rm ?n then F - {?n} else F) (posted ps)) [0..<length (posted ps)]"
      for F
      by (simp add: map_upt_Suc printed_Suc del: upt_Suc)
    show ?thesis
    proof (cases "?n \<in> files d")
      case False
      let ?d = "d\<lparr>deletionSuccess := False, serial := serial d @ [(?n, NotFound)]\<rparr>"
      from False have same: "(if rm ?n then files d - {?n} else files d) = files ?d" by auto
      have "deleteLoop rm (p # ps) d = deleteLoop rm ps ?d"
        using post False by (simp add: Let_def)
      with Cons.IH [of ?d] False show ?thesis
        unfolding pc split same by (simp add: printed_0)
    next
      case present: True
      show ?thesis
      proof (cases "rm ?n")
        case False
        let ?d = "d\<lparr>deletionSuccess := False, serial := serial d @ [(?n, FailedToDelete)]\<rparr>"
        from False have same: "(if rm ?n then files d - {?n} else files d) = files ?d" by auto
        have "deleteLoop rm (p # ps) d = deleteLoop rm ps ?d"
          using post present False by (simp add: Let_def)
        with Cons.IH [of ?d] present False show ?thesis
          unfolding pc split same by (simp add: printed_0)
      next
        case True
        let ?d = "d\<lparr>files := files d - {?n}, serial := serial d @ [(?n, Deleted)]\<rparr>"
        from True have same: "(if rm ?n then files d - {?n} else files d) = files ?d" by auto
        have "deleteLoop rm (p # ps) d = deleteLoop rm ps ?d"
          using post present True by (simp add: Let_def)
        with Cons.IH [of ?d] present True show ?thesis
          unfolding pc split same by (simp add: printed_0)
      qed
    qed
  qed
qed

lemma first_occurrences:
  "(\<forall>k < length xs. xs ! k \<notin> set (take k xs)) \<longleftrightarrow> distinct xs"
  by (induction xs rule: rev_induct) (auto simp: nth_append less_Suc_eq)

text \<open>
  C8. The handler goes through every posted name of the batch, in order, and prints one
  line for each. The line for a name depends only on the card as the names before it left
  it: a name that is not there (never on the card, or removed earlier in the same batch)
  gives \<open>NotFound\<close>, a name whose \<^verbatim>\<open>sd.remove\<close> fails gives \<open>FailedToDelete\<close>, any other
  name is removed and gives \<open>Deleted\<close>; no line stops the loop. The page it sends (always
  with code 200) says that the deletion succeeded exactly when every line is \<open>Deleted\<close>,
  that is when the names are pairwise different, all on the card and all removable.
\<close>

theorem deleteFiles_batch:
  "length (serial (fst (deleteFiles rm ps fs))) = length (posted ps) \<and>
   (\<forall>k < length (posted ps).
      serial (fst (deleteFiles rm ps fs)) ! k =
        (posted ps ! k,
         if posted ps ! k \<in> fs - {n \<in> set (take k (posted ps)). rm n}
         then (if rm (posted ps ! k) then Deleted else FailedToDelete)
         else NotFound)) \<and>
   files (fst (deleteFiles rm ps fs)) = fs - {n \<in> set (posted ps). rm n} \<and>
   (deletionSuccess (fst (deleteFiles rm ps fs)) \<longleftrightarrow>
      (\<forall>k < length (posted ps). snd (serial (fst (deleteFiles rm ps fs)) ! k) = Deleted)) \<and>
   (deletionSuccess (fst (deleteFiles rm ps fs)) \<longleftrightarrow>
      distinct (posted ps) \<and> (\<forall>n \<in> set (posted ps). n \<in> fs \<and> rm n)) \<and>
   code (snd (deleteFiles rm ps fs)) = 200 \<and>
   (message (snd (deleteFiles rm ps fs)) = ''Selected images deleted successfully!'' \<longleftrightarrow>
      deletionSuccess (fst (deleteFiles rm ps fs)))"
proof -
  let ?init = "\<lparr>files = fs, deletionSuccess = True, serial = []\<rparr>"
  let ?d = "deleteLoop rm ps ?init"
  let ?ns = "posted ps"
  have d: "fst (deleteFiles rm ps fs) = ?d" by (simp add: deleteFiles_def Let_def)
  have ser: "serial ?d = map (printed rm fs ?ns) [0..<length ?ns]"
    using deleteLoop_serial [of rm ps ?init] by simp
  then have len: "length (serial ?d) = length ?ns" by simp
  have pos: "serial ?d ! k =
        (?ns ! k,
         if ?ns ! k \<in> fs - {n \<in> set (take k ?ns). rm n}
         then (if rm (?ns ! k) then Deleted else FailedToDelete)
         else NotFound)" if "k < length ?ns" for k
    using that by (simp add: ser printed_def)
  have fl: "files ?d = fs - {n \<in> set ?ns. rm n}" by (simp add: deleteLoop_files)
  have "deletionSuccess ?d \<longleftrightarrow> (\<forall>r \<in> set (serial ?d). snd r = Deleted)"
    by (rule deleteLoop_success) simp
  then have ok: "deletionSuccess ?d \<longleftrightarrow> (\<forall>k < length ?ns. snd (serial ?d ! k) = Deleted)"
    by (simp add: all_set_conv_all_nth len)
  have "(\<forall>k < length ?ns. snd (serial ?d ! k) = Deleted) \<longleftrightarrow>
        (\<forall>k < length ?ns. (?ns ! k \<in> fs \<and> rm (?ns ! k)) \<and> ?ns ! k \<notin> set (take k ?ns))"
    by (rule all_cong) (auto simp: pos)
  also have "\<dots> \<longleftrightarrow> (\<forall>k < length ?ns. ?ns ! k \<in> fs \<and> rm (?ns ! k)) \<and>
        (\<forall>k < length ?ns. ?ns ! k \<notin> set (take k ?ns))"
    by blast
  also have "\<dots> \<longleftrightarrow> (\<forall>n \<in> set ?ns. n \<in> fs \<and> rm n) \<and> distinct ?ns"
    by (simp only: first_occurrences all_set_conv_all_nth)
  finally have det: "deletionSuccess ?d \<longleftrightarrow> distinct ?ns \<and> (\<forall>n \<in> set ?ns. n \<in> fs \<and> rm n)"
    using ok by blast
  have resp: "code (snd (deleteFiles rm ps fs)) = 200"
    "message (snd (deleteFiles rm ps fs)) = ''Selected images deleted successfully!'' \<longleftrightarrow>
       deletionSuccess ?d"
    by (simp_all add: deleteFiles_def Let_def)
  from pos have pos': "\<forall>k < length ?ns. serial ?d ! k =
        (?ns ! k,
         if ?ns ! k \<in> fs - {n \<in> set (take k ?ns). rm n}
         then (if rm (?ns ! k) then Deleted else FailedToDelete)
         else NotFound)"
    by blast
  from len pos' fl ok det resp show ?thesis unfolding d by (intro conjI)
qed

theorem deleteFiles_batch_witness:
  "posted batch = [''/a.jpg'', ''/ghost.jpg'', ''/locked.jpg'', ''/a.jpg'', ''/b.jpg''] \<and>
   length (serial (fst (deleteFiles removable batch cardFiles))) = 5 \<and>
   serial (fst (deleteFiles removable batch cardFiles)) ! 0 = (''/a.jpg'', Deleted) \<and>
   serial (fst (deleteFiles removable batch cardFiles)) ! 1 = (''/ghost.jpg'', NotFound) \<and>
   serial (fst (deleteFiles removable batch cardFiles)) ! 2 = (''/locked.jpg'', FailedToDelete) \<and>
   serial (fst (deleteFiles removable batch cardFiles)) ! 3 = (''/a.jpg'', NotFound) \<and>
   serial (fst (deleteFiles removable batch cardFiles)) ! 4 = (''/b.jpg'', Deleted) \<and>
   files (fst (deleteFiles removable batch cardFiles)) = {''/locked.jpg'', ''/music.wav''} \<and>
   \<not> deletionSuccess (fst (deleteFiles removable batch cardFiles)) \<and>
   code (snd (deleteFiles removable batch cardFiles)) = 200 \<and>
   message (snd (deleteFiles removable batch cardFiles)) \<noteq> ''Selected images deleted successfully!''"
proof -
  let ?d = "fst (deleteFiles removable batch cardFiles)"
  have p: "posted batch = [''/a.jpg'', ''/ghost.jpg'', ''/locked.jpg'', ''/a.jpg'', ''/b.jpg'']"
    by (simp add: posted_def batch_def)
  note t = deleteFiles_batch [of removable batch cardFiles]
  from t have len: "length (serial ?d) = 5" by (simp add: p)
  from t have pos: "\<forall>k < length (posted batch). serial ?d ! k =
        (posted batch ! k,
         if posted batch ! k \<in> cardFiles - {n \<in> set (take k (posted batch)). removable n}
         then (if removable (posted batch ! k) then Deleted else FailedToDelete)
         else NotFound)"
    by (rule conjunct2 [THEN conjunct1])
  have k: "(0::nat) < length (posted batch)" "(1::nat) < length (posted batch)"
    "(2::nat) < length (posted batch)" "(3::nat) < length (posted batch)"
    "(4::nat) < length (posted batch)"
    by (simp_all add: p)
  have c0: "serial ?d ! 0 = (''/a.jpg'', Deleted)"
    using pos [rule_format, OF k(1)] by (simp add: p cardFiles_def removable_def)
  have c1: "serial ?d ! 1 = (''/ghost.jpg'', NotFound)"
    using pos [rule_format, OF k(2)] by (simp add: p cardFiles_def removable_def)
  have c2: "serial ?d ! 2 = (''/locked.jpg'', FailedToDelete)"
    using pos [rule_format, OF k(3)] by (simp add: p cardFiles_def removable_def)
  have c3: "serial ?d ! 3 = (''/a.jpg'', NotFound)"
    using pos [rule_format, OF k(4)]
    by (simp add: p cardFiles_def removable_def numeral_3_eq_3)
  have c4: "serial ?d ! 4 = (''/b.jpg'', Deleted)"
    using pos [rule_format, OF k(5)]
    by (simp add: p cardFiles_def removable_def eval_nat_numeral)
  have rest: "cardFiles - {n \<in> set (posted batch). removable n} = {''/locked.jpg'', ''/music.wav''}"
    by (auto simp: p cardFiles_def removable_def)
  from t have fl: "files ?d = {''/locked.jpg'', ''/music.wav''}"
    unfolding rest by blast
  have nd: "\<not> distinct (posted batch)" by (simp add: p)
  from t nd have bad: "\<not> deletionSuccess ?d" by blast
  from t have code: "code (snd (deleteFiles removable batch cardFiles)) = 200" by blast
  from t bad have msg: "message (snd (deleteFiles removable batch cardFiles)) \<noteq>
      ''Selected images deleted successfully!''"
    by blast
  from p len c0 c1 c2 c3 c4 fl bad code msg show ?thesis by (intro conjI)
qed

subsection \<open>Setting the speed\<close>

text \<open>
  C9 at failing inputs. A posted \<^verbatim>\<open>speed\<close> of \<^verbatim>\<open>0\<close> or of \<^verbatim>\<open>abc\<close> stores 0 in \<^verbatim>\<open>X\<close>, and
  \<^verbatim>\<open>-5\<close> stores \<open>-5\<close>; the handler checks nothing. With \<^verbatim>\<open>X = 0\<close> the test of \<^verbatim>\<open>loop\<close>
  holds one millisecond after an advance.
\<close>

theorem setSpeed_not_positive:
  "sint (X (fst (setSpeed (speedRequest ''0'') running3))) = 0 \<and>
   sint (X (fst (setSpeed (speedRequest ''abc'') running3))) = 0 \<and>
   sint (X (fst (setSpeed (speedRequest ''-5'') running3))) = - 5 \<and>
   sint (X (fst (setSpeed (speedRequest ''7'') running3))) = 7 \<and>
   due 1 (fst (setSpeed (speedRequest ''0'') running3))"
  by code_simp

text \<open>
  C10. A \<^verbatim>\<open>/set-speed\<close> request without a posted \<^verbatim>\<open>speed\<close> parameter leaves \<^verbatim>\<open>X\<close> and all
  the rest of the state as they were, and still answers 200 with the page that says the
  speed was updated.
\<close>

theorem setSpeed_missing_param:
  "\<not> hasParam ''speed'' True ps \<Longrightarrow>
   setSpeed ps s = (s, \<lparr>code = 200, message = ''Slideshow speed updated successfully!''\<rparr>)"
  by (simp add: setSpeed_def)

theorem setSpeed_missing_param_witness:
  "\<not> hasParam ''speed'' True
       [\<lparr>pname = ''delay'', pvalue = ''5'', isPost = True, isFile = False\<rparr>] \<and>
   setSpeed [\<lparr>pname = ''delay'', pvalue = ''5'', isPost = True, isFile = False\<rparr>] bootState =
     (bootState, \<lparr>code = 200, message = ''Slideshow speed updated successfully!''\<rparr>)"
proof -
  have h: "\<not> hasParam ''speed'' True
             [\<lparr>pname = ''delay'', pvalue = ''5'', isPost = True, isFile = False\<rparr>]"
    by (simp add: hasParam_def getParam_def)
  show ?thesis using h setSpeed_missing_param [OF h, of bootState] by simp
qed

section \<open>Further properties of the code\<close>

subsection \<open>The mutex on the paths that give it back\<close>

text \<open>
  With the mutex free, \<^verbatim>\<open>decodeJpeg\<close> takes it once and gives it once on both of its
  paths, the failed \<^verbatim>\<open>jpeg.open\<close> and the finished decode; when the slideshow is stopped it
  does not touch the mutex.
\<close>

theorem decodeJpeg_gives_back:
  "\<not> xSpiMutex s \<Longrightarrow>
   decodeJpeg e nm s =
     Some (if slideshowActive s
           then s\<lparr>trace := trace s @
                   (if jpegOpen e nm then [SemTake, Paint nm, SemGive] else [SemTake, SemGive])\<rparr>
           else s)"
  by (cases s) (simp add: decodeJpeg_def xSemaphoreTake_def xSemaphoreGive_def emit_def)

lemma chunked_unfold:
  "chunked maxLen None remaining s =
     (if min maxLen remaining = 0 then xSemaphoreGive s
      else chunked maxLen None (remaining - min maxLen remaining) s)"
proof -
  define b where "b = min maxLen remaining"
  have "chunked maxLen None remaining s =
     (if b = 0 then xSemaphoreGive s else chunked maxLen None (remaining - b) s)"
    using chunked.simps [of maxLen None remaining s]
    unfolding filler_def Let_def b_def [symmetric]
    by (cases "b = 0") simp_all
  then show ?thesis by (simp only: b_def)
qed

lemma chunked_drained: "chunked maxLen None remaining s = xSemaphoreGive s"
proof (induction remaining arbitrary: s rule: less_induct)
  case (less remaining)
  show ?case
  proof (cases "min maxLen remaining = 0")
    case True
    then show ?thesis by (subst chunked_unfold) simp
  next
    case False
    then have "remaining - min maxLen remaining < remaining"
      by (simp add: min_def split: if_splits)
    then have "chunked maxLen None (remaining - min maxLen remaining) s = xSemaphoreGive s"
      by (rule less.IH)
    with False show ?thesis by (subst chunked_unfold) simp
  qed
qed

text \<open>
  With the mutex free and a client that stays until the end, the \<^verbatim>\<open>/current_image\<close>
  handler takes the mutex once and gives it once, whether the file opens (and is streamed
  to the read of 0 bytes) or not.
\<close>

theorem currentImage_drained_gives_back:
  "\<not> xSpiMutex s \<Longrightarrow> currentImageName s \<noteq> [] \<Longrightarrow>
   currentImage openFile maxLen None s =
     Some (s\<lparr>trace := trace s @ [SemTake, SemGive]\<rparr>,
           if openFile (currentImageName s) = None
           then \<lparr>code = 404, message = ''Image not found''\<rparr>
           else \<lparr>code = 200, message = ''image/jpeg''\<rparr>)"
  by (cases s; cases "openFile (currentImageName s)")
     (simp_all add: currentImage_def chunked_drained xSemaphoreTake_def xSemaphoreGive_def
        emit_def)

subsection \<open>The playback task when the stream starts\<close>

lemma playLoop_frame:
  "sdMounted (playLoop ls s) = sdMounted s \<and> audioSD (playLoop ls s) = audioSD s \<and>
   currentIndex (playLoop ls s) = currentIndex s \<and> xSpiMutex (playLoop ls s) = xSpiMutex s"
  by (induction ls arbitrary: s) (simp_all add: emit_def)

text \<open>
  With the mutex free, when \<^verbatim>\<open>SD.begin\<close> and \<^verbatim>\<open>wav->begin\<close> succeed, the task ends the SD
  library after the stream, however the stream went, mounts SdFat again if \<^verbatim>\<open>sd.begin\<close>
  lets it, and switches the slideshow on, with the index it had.
\<close>

theorem playWAVTask_restores_after_stream:
  assumes "\<not> xSpiMutex s" and "sdLibBegin a" and "wavBegin a"
  shows "\<exists>s'. playWAVTask e a s = Some s' \<and> \<not> audioSD s' \<and> sdMounted s' = sdFatBegin a \<and>
     slideshowActive s' \<and> currentIndex s' = currentIndex s \<and> \<not> xSpiMutex s'"
proof -
  let ?p = "playLoop (wavLoops a)
      (xSemaphoreGive ((emit SemTake (s\<lparr>xSpiMutex := True\<rparr>))\<lparr>sdMounted := False, audioSD := True\<rparr>))"
  have free: "\<not> xSpiMutex ?p" by (simp add: playLoop_frame xSemaphoreGive_def emit_def)
  from assms obtain p where p: "playWAV a s = Some p" "\<not> audioSD p"
    "sdMounted p = sdFatBegin a" "currentIndex p = currentIndex s" "\<not> xSpiMutex p"
    using free playLoop_frame [of "wavLoops a"
      "xSemaphoreGive ((emit SemTake (s\<lparr>xSpiMutex := True\<rparr>))\<lparr>sdMounted := False, audioSD := True\<rparr>)"]
    by (simp add: playWAV_def checkAndMountSDCard_def xSemaphoreTake_def xSemaphoreGive_def
          emit_def Let_def)
  from p(5) loadImage_returns [of "p\<lparr>slideshowActive := True\<rparr>" e "currentIndex p"]
  obtain s' where "restartSlideshow e p = Some s'" "\<not> xSpiMutex s'"
    "currentIndex s' = currentIndex p" "sdMounted s' = sdMounted p" "audioSD s' = audioSD p"
    "slideshowActive s'"
    by (auto simp: restartSlideshow_def)
  with p show ?thesis by (simp add: playWAVTask_def)
qed

subsection \<open>What the counting loop counts\<close>

lemma countLoop_word:
  "countLoop pre xs fc = fc + word_of_nat (length (filter (\<lambda>x. isJpg pre (getName x)) xs))"
  by (induction xs arbitrary: fc) simp_all

text \<open>
  The count is the number of entries, files and folders alike, whose name passes the
  test, modulo \<open>2 ^ 16\<close>; it is the number of files \<^verbatim>\<open>loadImage\<close> can show when no folder
  passes the test and there are fewer than 65536 entries.
\<close>

theorem rebuildFileList_count:
  "unat (fileCount (rebuildFileList e s)) =
     length (filter (\<lambda>x. isJpg (stackBytes e) (getName x)) (dir e)) mod 65536 \<and>
   ((\<forall>x \<in> set (dir e). isDirectory x \<longrightarrow> \<not> isJpg (stackBytes e) (getName x)) \<and>
    length (dir e) < 65536 \<longrightarrow>
      unat (fileCount (rebuildFileList e s)) = length (eligible e))"
proof -
  have c: "unat (fileCount (rebuildFileList e s)) =
     length (filter (\<lambda>x. isJpg (stackBytes e) (getName x)) (dir e)) mod 65536"
    by (simp add: rebuildFileList_def countLoop_word unat_of_nat)
  have "unat (fileCount (rebuildFileList e s)) = length (eligible e)"
    if a: "(\<forall>x \<in> set (dir e). isDirectory x \<longrightarrow> \<not> isJpg (stackBytes e) (getName x)) \<and>
       length (dir e) < 65536"
  proof -
    from a have "filter (\<lambda>x. isJpg (stackBytes e) (getName x)) (dir e) = eligible e"
      unfolding eligible_def eligibleIn_def by (intro filter_cong) auto
    moreover have "length (eligible e) \<le> length (dir e)"
      by (simp add: eligible_def eligibleIn_def)
    ultimately show ?thesis using c a by simp
  qed
  with c show ?thesis by blast
qed

subsection \<open>Advancing within the range of the index\<close>

lemma next_index_fits:
  fixes ci fc :: "16 word"
  assumes "0 < fc" "uint fc \<le> 32768" "0 \<le> sint ci" "sint ci < uint fc"
  shows "c_mod (sint ci + 1) (uint fc) = (sint ci + 1) mod uint fc"
    and "unat (word_of_int ((sint ci + 1) mod uint fc) :: 16 word) = nat ((sint ci + 1) mod uint fc)"
    and "(word_of_int ((sint ci + 1) mod uint fc) :: 16 word) < fc"
proof -
  let ?m = "(sint ci + 1) mod uint fc"
  from assms(1) have pos: "0 < uint fc" by (simp add: word_less_def)
  from assms(3) pos show "c_mod (sint ci + 1) (uint fc) = ?m" by (simp add: c_mod_def)
  have m: "0 \<le> ?m" "?m < uint fc" using pos by simp_all
  have "uint fc < 2 ^ 16" using unsigned_less [of fc] by simp
  with m have "take_bit 16 ?m = ?m" by (intro take_bit_int_eq_self) simp_all
  then have u: "uint (word_of_int ?m :: 16 word) = ?m" by (simp add: uint_word_of_int_eq)
  then show "unat (word_of_int ?m :: 16 word) = nat ?m"
    by (simp only: unat_eq_nat_uint)
  from u m show "(word_of_int ?m :: 16 word) < fc" by (simp add: word_less_def)
qed

text \<open>
  With between 1 and 32768 files counted, the index inside the catalog, the slideshow
  active, the mutex free and the count that of the files \<^verbatim>\<open>loadImage\<close> can show, a pass of
  \<^verbatim>\<open>loop\<close> whose test holds stores \<open>(currentIndex + 1) mod fileCount\<close>, shows the file with
  that ordinal, sets the timer and clears the button flag. With no file counted a pass
  changes nothing.
\<close>

theorem loop_advance_in_range:
  assumes "0 < fileCount s" and "uint (fileCount s) \<le> 32768"
    and "0 \<le> sint (currentIndex s)" and "sint (currentIndex s) < uint (fileCount s)"
    and "due t1 s" and "slideshowActive s" and "\<not> xSpiMutex s"
    and "unat (fileCount s) = length (eligible e)"
  shows "loop e t1 t2 s =
     Some (s\<lparr>currentIndex := word_of_int ((sint (currentIndex s) + 1) mod uint (fileCount s)),
             currentImageName :=
               getName (eligible e ! nat ((sint (currentIndex s) + 1) mod uint (fileCount s))),
             trace := trace s @
               (if jpegOpen e
                     (getName (eligible e ! nat ((sint (currentIndex s) + 1) mod uint (fileCount s))))
                then [SemTake,
                      Paint (getName (eligible e !
                        nat ((sint (currentIndex s) + 1) mod uint (fileCount s)))),
                      SemGive, WsTextAll ''update'']
                else [SemTake, SemGive, WsTextAll ''update'']),
             timer := t2, buttonPressed := False\<rparr>)"
proof -
  let ?m = "(sint (currentIndex s) + 1) mod uint (fileCount s)"
  let ?n = "word_of_int ?m :: 16 word"
  let ?s1 = "s\<lparr>currentIndex := ?n\<rparr>"
  note f = next_index_fits [OF assms(1-4)]
  have r: "(if ?n < fileCount ?s1 then unat ?n else 0) = nat ?m"
    using f(2,3) by simp
  from assms(1) have pos: "0 < uint (fileCount s)" by (simp add: word_less_def)
  then have "0 \<le> ?m" "?m < uint (fileCount s)" by simp_all
  then have "nat ?m < nat (uint (fileCount s))" by linarith
  then have "nat ?m < unat (fileCount s)" by (simp only: unat_eq_nat_uint)
  with assms(8) have "(if ?n < fileCount ?s1 then unat ?n else 0) < length (eligible e)"
    unfolding r by simp
  from loadImage_shows [of ?s1 ?n e, OF _ _ this] assms(6,7)
  have l: "loadImage e ?n ?s1 =
     Some (?s1\<lparr>currentImageName := getName (eligible e ! nat ?m),
             trace := trace ?s1 @
               (if jpegOpen e (getName (eligible e ! nat ?m))
                then [SemTake, Paint (getName (eligible e ! nat ?m)), SemGive, WsTextAll ''update'']
                else [SemTake, SemGive, WsTextAll ''update''])\<rparr>)"
    unfolding r by simp
  from assms(1,5) have "loop e t1 t2 s =
      map_option (\<lambda>s2. s2\<lparr>timer := t2, buttonPressed := False\<rparr>) (loadImage e ?n ?s1)"
    by (simp add: loop_def due_def Let_def f(1))
  with l show ?thesis by simp
qed

theorem loop_without_files: "fileCount s = 0 \<Longrightarrow> loop e t1 t2 s = Some s"
  by (simp add: loop_def)

end
